theory Spec2Isabelle
  imports Complex_Main "HOL-Library.Multiset" "HOL-Library.Sublist"
begin

section \<open>The pub explorer: data model\<close>

text \<open>
  The program (\<^verbatim>\<open>final_project.py\<close>) keeps the pubs in a pandas data frame with the nine
  columns named in \<^verbatim>\<open>load_data\<close>. A text cell read from the spreadsheet may be missing
  (NaN); the code itself says which columns it expects to have missing cells: \<^verbatim>\<open>name\<close>
  (\<^verbatim>\<open>na=False\<close> in \<^verbatim>\<open>apply_filters\<close>) and \<^verbatim>\<open>postcode\<close> (\<^verbatim>\<open>dropna()\<close> in \<^verbatim>\<open>main\<close>).
  \<^verbatim>\<open>local_authority\<close> is sorted in \<^verbatim>\<open>main\<close> without \<^verbatim>\<open>dropna()\<close>, which only works
  when every cell is text, so it is text here. A missing cell is \<open>None\<close>.

  Characters are code points below 256, so that \<open>length\<close> is Python's \<^verbatim>\<open>len\<close>.
\<close>

type_synonym cell = "string option"

record pub =
  fsa_id :: int
  name :: cell
  address :: cell
  postcode :: cell
  easting :: real
  northing :: real
  latitude :: real
  longitude :: real
  local_authority :: string

text \<open>
  A column has a dtype. The column \<^verbatim>\<open>name\<close> is a column of Python objects when some cell
  of it was text when the frame was made, and a column of floats (all of them NaN) when
  none was; selecting rows keeps the dtype. The string accessor \<^verbatim>\<open>.str\<close> depends on it.
\<close>

datatype dtype = Object | Float64

text \<open>
  A frame is its rows, in order, the dtype of its column \<^verbatim>\<open>name\<close>, and the column
  \<^verbatim>\<open>name_length\<close> that \<^verbatim>\<open>display_sorted_pubs\<close> adds (absent in a frame that
  \<^verbatim>\<open>load_data\<close> made).
\<close>

record frame =
  rows :: "pub list"
  name_dtype :: dtype
  name_length :: "nat list option"

text \<open>The exceptions the modelled code can raise.\<close>

datatype py_error = TypeError | ReError | AttributeError

text \<open>What a function hands to Streamlit: a chart, a table or a line of text.\<close>

datatype ui =
  Plotly_chart "(string \<times> nat) list"
| Dataframe "(cell \<times> cell \<times> cell \<times> string) list"
| Write string

section \<open>Library operations the program calls\<close>

subsection \<open>Python strings\<close>

text \<open>\<^verbatim>\<open>str.isspace\<close> on the code points below 256, and \<^verbatim>\<open>str.strip()\<close>.\<close>

definition py_isspace :: "char \<Rightarrow> bool" where
  "py_isspace c =
     (let n = (of_char c :: nat)
      in (9 \<le> n \<and> n \<le> 13) \<or> (28 \<le> n \<and> n \<le> 32) \<or> n = 133 \<or> n = 160)"

definition strip :: "string \<Rightarrow> string" where
  "strip s = rev (dropWhile py_isspace (rev (dropWhile py_isspace s)))"

text \<open>Lower case of a code point below 256 (the ASCII and the Latin-1 capital letters).\<close>

definition py_lower :: "char \<Rightarrow> char" where
  "py_lower c =
     (let n = (of_char c :: nat)
      in if (65 \<le> n \<and> n \<le> 90) \<or> (192 \<le> n \<and> n \<le> 222 \<and> n \<noteq> 215)
         then char_of (n + 32) else c)"

subsection \<open>Regular expressions\<close>

text \<open>
  \<^verbatim>\<open>Series.str.contains(pat, case=False, na=False)\<close> leaves \<^verbatim>\<open>regex\<close> at its default
  \<^verbatim>\<open>True\<close>: it compiles \<^verbatim>\<open>pat\<close> as a regular expression with the flag IGNORECASE and
  searches every cell for it; a missing cell gives \<^verbatim>\<open>na\<close>, here False.

  A pattern without the characters \<^verbatim>\<open>\ ^ $ * + ? { } [ ] | ( )\<close> is a sequence of
  items that each match one character: \<^verbatim>\<open>.\<close> matches every character but the newline,
  any other character matches itself in either case. These patterns are decided here.
  So are the patterns whose only special characters are opening parentheses: a group is
  opened and never closed, and the compiler raises \<^verbatim>\<open>re.error\<close> (missing parenthesis,
  unterminated subpattern). For every other pattern the answer is the
  regular-expression engine's, a parameter of the model: it returns the compiled
  search, or raises \<^verbatim>\<open>re.error\<close>.

  The accessor \<^verbatim>\<open>.str\<close> comes first: on a column of floats it raises AttributeError
  (only string values have the accessor), before the pattern is looked at.
\<close>

type_synonym re_engine = "string \<Rightarrow> py_error + (string \<Rightarrow> bool)"

definition re_meta :: "char \<Rightarrow> bool" where
  "re_meta c = (c \<in> set [CHR 0x5C, CHR ''^'', CHR ''$'', CHR ''*'', CHR ''+'', CHR ''?'',
     CHR ''{'', CHR ''}'', CHR ''['', CHR '']'', CHR ''|'', CHR ''('', CHR '')''])"

definition re_char :: "char \<Rightarrow> char \<Rightarrow> bool" where
  "re_char p c = (if p = CHR ''.'' then c \<noteq> CHR 0x0A else py_lower p = py_lower c)"

fun re_match :: "string \<Rightarrow> string \<Rightarrow> bool" where
  "re_match [] s = True"
| "re_match (p # ps) [] = False"
| "re_match (p # ps) (c # cs) = (re_char p c \<and> re_match ps cs)"

fun re_search :: "string \<Rightarrow> string \<Rightarrow> bool" where
  "re_search pat [] = re_match pat []"
| "re_search pat (c # cs) = (re_match pat (c # cs) \<or> re_search pat cs)"

definition re_compile :: "re_engine \<Rightarrow> string \<Rightarrow> py_error + (string \<Rightarrow> bool)" where
  "re_compile eng pat =
     (if \<not> list_ex re_meta pat then Inr (re_search pat)
      else if list_all (\<lambda>c. c = CHR ''('') (filter re_meta pat) then Inl ReError
      else eng pat)"

definition str_contains ::
    "re_engine \<Rightarrow> dtype \<Rightarrow> string \<Rightarrow> cell list \<Rightarrow> py_error + bool list" where
  "str_contains eng dt pat col =
     (if dt = Float64 then Inl AttributeError
      else case re_compile eng pat of
             Inl e \<Rightarrow> Inl e
           | Inr found \<Rightarrow> Inr (map (\<lambda>x. case x of None \<Rightarrow> False | Some s \<Rightarrow> found s) col))"

subsection \<open>Frames\<close>

text \<open>Indexing a frame with a boolean series (\<^verbatim>\<open>df[flags]\<close>) keeps the rows marked True.\<close>

definition select :: "bool list \<Rightarrow> 'a list \<Rightarrow> 'a list" where
  "select keep xs = map snd (filter fst (zip keep xs))"

definition bool_index :: "bool list \<Rightarrow> frame \<Rightarrow> frame" where
  "bool_index keep df =
     \<lparr>rows = select keep (rows df), name_dtype = name_dtype df,
      name_length = map_option (select keep) (name_length df)\<rparr>"

text \<open>
  Sorting goes through the library's \<^verbatim>\<open>argsort\<close>: given the direction (True is ascending)
  and the keys, it returns the positions of the keys in sorted order. The program never
  passes \<^verbatim>\<open>kind\<close>, so the algorithm is the default \<^verbatim>\<open>quicksort\<close>, which the library
  documents as not stable: the order of equal keys is the library's choice. The model
  takes the function as a parameter; \<open>argsort_ok\<close> is what the library promises of it.
\<close>

type_synonym argsort = "bool \<Rightarrow> nat list \<Rightarrow> nat list"

definition argsort_ok :: "argsort \<Rightarrow> bool" where
  "argsort_ok srt =
     (\<forall>asc ks. mset (srt asc ks) = mset [0..<length ks] \<and>
        sorted (map ((!) ks) (if asc then srt asc ks else rev (srt asc ks))))"

text \<open>
  Two orderings that meet the promise: equal keys in the order of the input, and equal
  keys in the opposite order. Where no two keys are equal, every ordering that meets the
  promise returns the same positions.
\<close>

definition argsort_stable :: argsort where
  "argsort_stable asc ks =
     (if asc then sort_key ((!) ks) [0..<length ks]
      else rev (sort_key ((!) ks) (rev [0..<length ks])))"

definition argsort_ties_reversed :: argsort where
  "argsort_ties_reversed asc ks =
     (if asc then sort_key ((!) ks) (rev [0..<length ks])
      else rev (sort_key ((!) ks) [0..<length ks]))"

definition take_rows :: "'a list \<Rightarrow> nat list \<Rightarrow> 'a list" where
  "take_rows xs idx = map ((!) xs) idx"

text \<open>
  \<^verbatim>\<open>Series.value_counts()\<close>: the distinct values in the order of their first appearance,
  each with the number of its occurrences, then sorted by that number, descending.
\<close>

fun uniques :: "'a list \<Rightarrow> 'a list" where
  "uniques [] = []"
| "uniques (x # xs) = x # uniques (filter (\<lambda>y. y \<noteq> x) xs)"

definition value_counts :: "argsort \<Rightarrow> string list \<Rightarrow> (string \<times> nat) list" where
  "value_counts srt col =
     (let counted = map (\<lambda>k. (k, count_list col k)) (uniques col)
      in take_rows counted (srt False (map snd counted)))"

text \<open>
  \<^verbatim>\<open>Series.nlargest(n)\<close> with the default \<^verbatim>\<open>keep='first'\<close>. When n is at least the
  number of entries, the library sorts all of them with \<^verbatim>\<open>sort_values(ascending=False)\<close>,
  that is with the default algorithm again, and takes the first n. Otherwise it selects
  the n largest with a stable merge sort: decreasing, equal entries in their order of
  appearance.
\<close>

definition nlargest :: "argsort \<Rightarrow> nat \<Rightarrow> (string \<times> nat) list \<Rightarrow> (string \<times> nat) list" where
  "nlargest srt n s =
     (if n = 0 then []
      else if length s \<le> n then take n (take_rows s (srt False (map snd s)))
      else take n (sort_key (\<lambda>p. - int (snd p)) s))"

text \<open>\<^verbatim>\<open>Series.apply(len)\<close>: \<^verbatim>\<open>len\<close> of a missing cell (a float) raises TypeError.\<close>

fun apply_len :: "cell list \<Rightarrow> py_error + nat list" where
  "apply_len [] = Inr []"
| "apply_len (None # xs) = Inl TypeError"
| "apply_len (Some s # xs) =
     (case apply_len xs of Inl e \<Rightarrow> Inl e | Inr ls \<Rightarrow> Inr (length s # ls))"

section \<open>The program\<close>

text \<open>\<^verbatim>\<open>apply_filters\<close>: the three filters in the order of the source, on a copy of the data.\<close>

definition apply_filters ::
    "re_engine \<Rightarrow> frame \<Rightarrow> string list \<Rightarrow> string \<Rightarrow> string \<Rightarrow> py_error + frame" where
  "apply_filters eng data authorities name_query postal_code =
     (let filtered_data = data;
          filtered_data =
            (if authorities \<noteq> [] \<and> ''All'' \<notin> set authorities
             then bool_index (map (\<lambda>r. local_authority r \<in> set authorities) (rows filtered_data))
                    filtered_data
             else filtered_data)
      in case (if name_query \<noteq> []
               then (let trimmed_query = strip name_query
                     in case str_contains eng (name_dtype filtered_data) trimmed_query
                               (map name (rows filtered_data)) of
                          Inl e \<Rightarrow> Inl e
                        | Inr keep \<Rightarrow> Inr (bool_index keep filtered_data))
               else Inr filtered_data) of
           Inl e \<Rightarrow> Inl e
         | Inr filtered_data \<Rightarrow>
             Inr (if postal_code \<noteq> ''All''
                  then bool_index (map (\<lambda>r. postcode r = Some postal_code) (rows filtered_data))
                         filtered_data
                  else filtered_data))"

text \<open>\<^verbatim>\<open>display_bar_chart\<close> and \<^verbatim>\<open>display_top_cities\<close>.\<close>

definition display_bar_chart :: "argsort \<Rightarrow> frame \<Rightarrow> ui" where
  "display_bar_chart srt data =
     (if rows data \<noteq> []
      then Plotly_chart (value_counts srt (map local_authority (rows data)))
      else Write ''No chart data available.'')"

definition display_top_cities :: "argsort \<Rightarrow> frame \<Rightarrow> ui" where
  "display_top_cities srt data =
     (if rows data \<noteq> []
      then Plotly_chart (nlargest srt 10 (value_counts srt (map local_authority (rows data))))
      else Write ''No chart data available.'')"

text \<open>
  \<^verbatim>\<open>display_sorted_pubs\<close> assigns the column \<^verbatim>\<open>name_length\<close> in the frame it was given,
  sorts by it and shows four columns of the sorted frame. The result is the caller's
  frame as the call leaves it, and what is shown or the exception raised. \<^verbatim>\<open>len\<close> fails
  before the assignment, so an exception leaves the frame as it was.
\<close>

definition display_sorted_pubs :: "argsort \<Rightarrow> frame \<Rightarrow> frame \<times> (py_error + ui)" where
  "display_sorted_pubs srt data =
     (if rows data \<noteq> []
      then (case apply_len (map name (rows data)) of
              Inl e \<Rightarrow> (data, Inl e)
            | Inr lens \<Rightarrow>
                (let data = data\<lparr>name_length := Some lens\<rparr>;
                     sorted_data = take_rows (rows data) (srt True lens)
                 in (data, Inr (Dataframe (map (\<lambda>r. (name r, address r, postcode r,
                                                        local_authority r)) sorted_data)))))
      else (data, Inr (Write ''No data available to display.'')))"

text \<open>
  The page "Saved Pubs" of \<^verbatim>\<open>main\<close>: the session state has the list \<^verbatim>\<open>saved_pubs\<close> or not
  yet; \<open>pub_name\<close> is the choice of the select box (\<^verbatim>\<open>'None'\<close> or a cell of the column
  \<^verbatim>\<open>name\<close>), \<open>button\<close> whether "Save Pub" was pressed.
\<close>

record session_state =
  saved_pubs :: "cell list option"

definition saved_list :: "session_state \<Rightarrow> cell list" where
  "saved_list st = (case saved_pubs st of None \<Rightarrow> [] | Some l \<Rightarrow> l)"

definition saved_pubs_page :: "session_state \<Rightarrow> cell \<Rightarrow> bool \<Rightarrow> session_state" where
  "saved_pubs_page st pub_name button =
     (let st = (if saved_pubs st = None then st\<lparr>saved_pubs := Some []\<rparr> else st)
      in if button \<and> pub_name \<noteq> Some ''None''
         then st\<lparr>saved_pubs := Some (saved_list st @ [pub_name])\<rparr>
         else st)"

section \<open>Example data\<close>

text \<open>
  The three pubs of the specification's scenario (name, region and postcode are the
  scenario's, the other columns are filled in), and a pub whose name cell is missing.
\<close>

definition example_pub :: "int \<Rightarrow> cell \<Rightarrow> string \<Rightarrow> string \<Rightarrow> pub" where
  "example_pub i n region pc =
     \<lparr>fsa_id = i, name = n, address = Some ''1 High Street'', postcode = Some pc,
      easting = 530000, northing = 180000, latitude = 51.5, longitude = - 0.1,
      local_authority = region\<rparr>"

definition red_lion :: pub where
  "red_lion = example_pub 1 (Some ''Red Lion'') ''Camden'' ''N1''"

definition ox :: pub where
  "ox = example_pub 2 (Some ''Ox'') ''Camden'' ''N1''"

definition the_crown :: pub where
  "the_crown = example_pub 3 (Some ''The Crown'') ''Soho'' ''W1''"

definition nameless :: pub where
  "nameless = example_pub 4 None ''Soho'' ''W1''"

text \<open>More pubs, with names as long as another pub's.\<close>

definition swan :: pub where
  "swan = example_pub 5 (Some ''Swan'') ''Camden'' ''N1''"

definition bull :: pub where
  "bull = example_pub 6 (Some ''Bull'') ''Soho'' ''W1''"

definition old_bell :: pub where
  "old_bell = example_pub 7 (Some ''Old Bell'') ''Soho'' ''W1''"

text \<open>
  The frame made from the given rows, as \<^verbatim>\<open>load_data\<close> or the frame constructor makes it:
  the column \<^verbatim>\<open>name\<close> is a column of floats when there are rows and no name is text.
\<close>

definition loaded :: "pub list \<Rightarrow> frame" where
  "loaded rs =
     \<lparr>rows = rs,
      name_dtype = (if rs \<noteq> [] \<and> list_all (\<lambda>r. name r = None) rs then Float64 else Object),
      name_length = None\<rparr>"

text \<open>A regular-expression engine that rejects every pattern it is asked about.\<close>

definition no_engine :: re_engine where
  "no_engine pat = Inl ReError"

section \<open>Facts about the library operations\<close>

lemma select_map: "select (map P xs) xs = filter P xs"
  unfolding select_def by (induction xs) auto

lemma select_map_col: "select (map f (map g xs)) xs = filter (\<lambda>x. f (g x)) xs"
  unfolding select_def by (induction xs) auto

lemma subseq_select: "subseq (select keep xs) xs"
proof (induction xs arbitrary: keep)
  case Nil
  then show ?case by (simp add: select_def)
next
  case (Cons x xs)
  show ?case
  proof (cases keep)
    case Nil
    then show ?thesis by (simp add: select_def)
  next
    case (Cons b bs)
    with Cons.IH [of bs] show ?thesis
      by (cases b) (auto simp add: select_def)
  qed
qed

lemma rows_bool_index: "rows (bool_index keep df) = select keep (rows df)"
  by (simp add: bool_index_def)

lemma set_uniques: "set (uniques xs) = set xs"
  by (induction xs rule: uniques.induct) auto

lemma distinct_uniques: "distinct (uniques xs)"
  by (induction xs rule: uniques.induct) (auto simp: set_uniques)

lemma sum_counts_uniques: "sum_list (map (count_list xs) (uniques xs)) = length xs"
proof -
  have "sum_list (map (count_list xs) (uniques xs)) = sum (count_list xs) (set (uniques xs))"
    by (simp add: sum_list_distinct_conv_sum_set distinct_uniques)
  also have "\<dots> = length xs"
    by (simp add: set_uniques sum_count_set)
  finally show ?thesis .
qed

lemma argsort_ok_mset: "argsort_ok srt \<Longrightarrow> mset (srt asc ks) = mset [0..<length ks]"
  by (simp add: argsort_ok_def)

lemma argsort_ok_set: "argsort_ok srt \<Longrightarrow> set (srt asc ks) = {0..<length ks}"
  using argsort_ok_mset [of srt asc ks] by (metis mset_eq_setD set_upt)

lemma mset_take_rows:
  assumes "argsort_ok srt" and "length xs = length ks"
  shows "mset (take_rows xs (srt asc ks)) = mset xs"
proof -
  have "mset (take_rows xs (srt asc ks)) = image_mset ((!) xs) (mset (srt asc ks))"
    by (simp add: take_rows_def)
  also have "\<dots> = image_mset ((!) xs) (mset [0..<length xs])"
    using assms by (simp add: argsort_ok_mset)
  also have "\<dots> = mset (map ((!) xs) [0..<length xs])"
    by simp
  also have "\<dots> = mset xs"
    by (simp add: map_nth)
  finally show ?thesis .
qed

lemma map_take_rows:
  "set idx \<subseteq> {0..<length xs} \<Longrightarrow> map f (take_rows xs idx) = take_rows (map f xs) idx"
  by (auto simp: take_rows_def)

lemma argsort_stable_ok: "argsort_ok argsort_stable"
  by (simp add: argsort_ok_def argsort_stable_def)

lemma argsort_ties_reversed_ok: "argsort_ok argsort_ties_reversed"
  by (simp add: argsort_ok_def argsort_ties_reversed_def)

lemma argsort_ok_ascending:
  assumes "argsort_ok srt"
  shows "sorted (map ((!) ks) (srt True ks))"
proof -
  from assms have "sorted (map ((!) ks) (if True then srt True ks else rev (srt True ks)))"
    unfolding argsort_ok_def by blast
  then show ?thesis by simp
qed

lemma argsort_ok_descending:
  assumes "argsort_ok srt"
  shows "sorted (map ((!) ks) (rev (srt False ks)))"
proof -
  from assms have "sorted (map ((!) ks) (if False then srt False ks else rev (srt False ks)))"
    unfolding argsort_ok_def by blast
  then show ?thesis by simp
qed

lemma take_rows_map_Some:
  "set idx \<subseteq> {0..<length ss} \<Longrightarrow> take_rows (map Some ss) idx = map Some (take_rows ss idx)"
  by (auto simp: take_rows_def)

lemma map_insort_key:
  "map g (insort_key (\<lambda>i. f (g i)) i js) = insort_key f (g i) (map g js)"
  by (induction js) simp_all

lemma map_sort_key:
  "map g (sort_key (\<lambda>i. f (g i)) js) = sort_key f (map g js)"
  by (induction js) (simp_all add: map_insort_key)

lemma insort_key_cong_set:
  "k i = k' i \<Longrightarrow> (\<forall>j \<in> set js. k j = k' j) \<Longrightarrow> insort_key k i js = insort_key k' i js"
  by (induction js) simp_all

lemma sort_key_cong_set:
  "(\<forall>j \<in> set js. k j = k' j) \<Longrightarrow> sort_key k js = sort_key k' js"
proof (induction js)
  case Nil
  then show ?case by simp
next
  case (Cons j js)
  then have "sort_key k js = sort_key k' js" by simp
  moreover have "insort_key k j (sort_key k' js) = insort_key k' j (sort_key k' js)"
    using Cons.prems by (intro insort_key_cong_set) simp_all
  ultimately show ?case by simp
qed

lemma take_rows_argsort_stable:
  "take_rows xs (argsort_stable True (map f xs)) = sort_key f xs"
proof -
  have "sort_key ((!) (map f xs)) [0..<length xs] = sort_key (\<lambda>i. f (xs ! i)) [0..<length xs]"
    by (rule sort_key_cong_set) simp
  then have "take_rows xs (argsort_stable True (map f xs)) =
      map ((!) xs) (sort_key (\<lambda>i. f (xs ! i)) [0..<length xs])"
    by (simp add: take_rows_def argsort_stable_def)
  also have "\<dots> = sort_key f (map ((!) xs) [0..<length xs])"
    by (rule map_sort_key)
  also have "\<dots> = sort_key f xs"
    by (simp add: map_nth)
  finally show ?thesis .
qed

lemma apply_len_missing: "None \<in> set col \<Longrightarrow> apply_len col = Inl TypeError"
  by (induction col rule: apply_len.induct) (auto split: sum.splits)

lemma apply_len_present: "apply_len (map Some ss) = Inr (map length ss)"
  by (induction ss) simp_all

lemma apply_len_Inr:
  "apply_len col = Inr lens \<Longrightarrow> \<exists>ss. col = map Some ss \<and> lens = map length ss"
proof (induction col arbitrary: lens rule: apply_len.induct)
  case 1
  then show ?case by simp
next
  case (2 xs)
  then show ?case by simp
next
  case (3 s xs)
  from "3.prems" obtain ls where ls: "apply_len xs = Inr ls" and lens: "lens = length s # ls"
    by (auto split: sum.splits)
  from "3.IH" [OF ls] obtain ss where "xs = map Some ss" and "ls = map length ss"
    by blast
  with lens have "Some s # xs = map Some (s # ss) \<and> lens = map length (s # ss)"
    by simp
  then show ?case by (rule exI [of _ "s # ss"])
qed

lemma apply_len_error: "apply_len col = Inl e \<Longrightarrow> e = TypeError \<and> None \<in> set col"
  by (induction col rule: apply_len.induct) (auto split: sum.splits)

lemma argsort_ok_distinct:
  assumes "argsort_ok srt"
  shows "distinct (srt asc ks)"
  using argsort_ok_mset [OF assms, of asc ks] by (metis distinct_upt mset_eq_imp_distinct_iff)

text \<open>
  Where no two keys are equal, every ordering that meets the promise returns the same
  positions: on such keys the model computes what the library computes.
\<close>

lemma argsort_ok_unique:
  assumes "argsort_ok srt" and "argsort_ok srt'" and "distinct ks"
  shows "srt asc ks = srt' asc ks"
proof -
  have inj: "inj_on ((!) ks) {0..<length ks}"
    using assms(3) by (auto simp: inj_on_def nth_eq_iff_index_eq)
  have s1: "set (srt asc ks) = {0..<length ks}" and s2: "set (srt' asc ks) = {0..<length ks}"
    by (simp_all add: argsort_ok_set assms(1,2))
  have d1: "distinct (map ((!) ks) (srt asc ks))"
    using inj s1 by (simp add: distinct_map argsort_ok_distinct [OF assms(1)])
  have d2: "distinct (map ((!) ks) (srt' asc ks))"
    using inj s2 by (simp add: distinct_map argsort_ok_distinct [OF assms(2)])
  have keys: "map ((!) ks) (srt asc ks) = map ((!) ks) (srt' asc ks)"
  proof (cases asc)
    case True
    have "sorted (map ((!) ks) (srt True ks))" and "sorted (map ((!) ks) (srt' True ks))"
      by (rule argsort_ok_ascending [OF assms(1)], rule argsort_ok_ascending [OF assms(2)])
    with d1 d2 s1 s2 True show ?thesis
      by (intro sorted_distinct_set_unique) simp_all
  next
    case False
    have "sorted (map ((!) ks) (rev (srt False ks)))"
      and "sorted (map ((!) ks) (rev (srt' False ks)))"
      by (rule argsort_ok_descending [OF assms(1)], rule argsort_ok_descending [OF assms(2)])
    moreover from d1 d2 False have "distinct (map ((!) ks) (rev (srt False ks)))"
      and "distinct (map ((!) ks) (rev (srt' False ks)))"
      by (simp_all add: rev_map [symmetric])
    moreover from s1 s2 False
    have "set (map ((!) ks) (rev (srt False ks))) = set (map ((!) ks) (rev (srt' False ks)))"
      by simp
    ultimately have "map ((!) ks) (rev (srt False ks)) = map ((!) ks) (rev (srt' False ks))"
      by - (rule sorted_distinct_set_unique, assumption+)
    then have "rev (map ((!) ks) (srt False ks)) = rev (map ((!) ks) (srt' False ks))"
      by (simp only: rev_map)
    with False show ?thesis by simp
  qed
  have "inj_on ((!) ks) (set (srt asc ks) \<union> set (srt' asc ks))"
    using inj s1 s2 by simp
  from inj_on_map_eq_map [OF this] keys show ?thesis by simp
qed

section \<open>The filter\<close>

text \<open>
  The rows that \<^verbatim>\<open>apply_filters\<close> returns are the rows of the data that pass the three
  filters, in the order of the data.
\<close>

lemma apply_filters_rows:
  assumes "apply_filters eng data authorities name_query postal_code = Inr out"
  shows "\<exists>found. (name_query \<noteq> [] \<longrightarrow> re_compile eng (strip name_query) = Inr found) \<and>
     rows out =
       filter (\<lambda>r. postal_code = ''All'' \<or> postcode r = Some postal_code)
         (filter (\<lambda>r. name_query = [] \<or> (case name r of None \<Rightarrow> False | Some s \<Rightarrow> found s))
           (filter (\<lambda>r. authorities = [] \<or> ''All'' \<in> set authorities \<or>
                      local_authority r \<in> set authorities) (rows data)))"
proof (cases "name_query = []")
  case True
  with assms show ?thesis
    by (auto simp: apply_filters_def Let_def rows_bool_index select_map)
next
  case False
  with assms obtain found where c: "re_compile eng (strip name_query) = Inr found"
    by (auto simp: apply_filters_def Let_def str_contains_def split: sum.splits if_splits)
  with assms False have "rows out =
       filter (\<lambda>r. postal_code = ''All'' \<or> postcode r = Some postal_code)
         (filter (\<lambda>r. name_query = [] \<or> (case name r of None \<Rightarrow> False | Some s \<Rightarrow> found s))
           (filter (\<lambda>r. authorities = [] \<or> ''All'' \<in> set authorities \<or>
                      local_authority r \<in> set authorities) (rows data)))"
    by (auto simp: apply_filters_def Let_def str_contains_def rows_bool_index select_map
        select_map_col comp_def split: sum.splits if_splits)
  with c show ?thesis by blast
qed

text \<open>
  The call returns when there is no name query, and when the column of names is a column
  of objects and the trimmed query has no special character other than the dot.
\<close>

lemma apply_filters_returns:
  assumes "name_query = [] \<or>
      (name_dtype data = Object \<and> \<not> list_ex re_meta (strip name_query))"
  shows "\<exists>out. apply_filters eng data authorities name_query postal_code = Inr out"
  using assms
  by (auto simp: apply_filters_def Let_def str_contains_def re_compile_def bool_index_def)

lemma subseq_filter3: "subseq (filter P (filter Q (filter S xs))) xs"
  by (meson subseq_filter_left subseq_order.trans)

text \<open>Whenever the call returns, the rows returned are a subsequence of the rows given.\<close>

lemma apply_filters_subseq:
  assumes "apply_filters eng data authorities name_query postal_code = Inr out"
  shows "subseq (rows out) (rows data)"
  using apply_filters_rows [OF assms] by (auto simp: subseq_filter3)

text \<open>The scenarios of the specification: by region, by postal code, by name.\<close>

lemma apply_filters_scenarios:
  "apply_filters eng (loaded [red_lion, ox, the_crown]) [''Camden''] [] ''All''
     = Inr (loaded [red_lion, ox])"
  "apply_filters eng (loaded [red_lion, ox, the_crown]) [] [] ''W1'' = Inr (loaded [the_crown])"
  "apply_filters eng (loaded [red_lion, ox, the_crown]) [] ''red'' ''All''
     = Inr (loaded [red_lion])"
  by code_simp+

text \<open>
  Claim C5. For every region list, name query and postal code, the filter is to return
  a subsequence of the data. It returns nothing at all for a name query that is not a
  regular expression: the trimmed query goes to \<^verbatim>\<open>str.contains\<close>, which compiles it, and
  for the query of one opening parenthesis the compiler raises \<^verbatim>\<open>re.error\<close>, which
  \<^verbatim>\<open>apply_filters\<close> passes on to its caller. (A second way not to return: when no pub of
  the frame has a name, the column of names is a column of floats, and any name query
  ends in the AttributeError of the accessor \<^verbatim>\<open>.str\<close>.)
\<close>

theorem unclosed_parenthesis_query_raises:
  "strip ''('' = ''('' \<and>
   apply_filters eng (loaded [red_lion, ox, the_crown]) [] ''('' ''All'' = Inl ReError \<and>
   apply_filters eng (loaded [nameless]) [] ''x'' ''All'' = Inl AttributeError"
  by code_simp

subsection \<open>Unconstrained criteria\<close>

lemma apply_filters_empty_query:
  "authorities = [] \<or> ''All'' \<in> set authorities \<Longrightarrow>
     apply_filters eng data authorities [] ''All'' = Inr data"
  by (auto simp: apply_filters_def)

lemma apply_filters_blank_query_named:
  assumes "authorities = [] \<or> ''All'' \<in> set authorities"
    and "strip name_query = []"
    and "None \<notin> set (map name (rows data))"
    and "name_dtype data = Object"
  shows "\<exists>out. apply_filters eng data authorities name_query ''All'' = Inr out \<and>
           rows out = rows data"
proof -
  from apply_filters_returns [of name_query data eng authorities "''All''"] assms(2,4)
  obtain out where out: "apply_filters eng data authorities name_query ''All'' = Inr out"
    by auto
  from apply_filters_rows [OF out] obtain found where
    c: "name_query \<noteq> [] \<longrightarrow> re_compile eng (strip name_query) = Inr found" and
    r: "rows out =
       filter (\<lambda>r. ''All'' = ''All'' \<or> postcode r = Some ''All'')
         (filter (\<lambda>r. name_query = [] \<or> (case name r of None \<Rightarrow> False | Some s \<Rightarrow> found s))
           (filter (\<lambda>r. authorities = [] \<or> ''All'' \<in> set authorities \<or>
                      local_authority r \<in> set authorities) (rows data)))"
    by blast
  have all: "\<And>s. name_query \<noteq> [] \<Longrightarrow> found s"
  proof -
    fix s assume "name_query \<noteq> []"
    with c assms(2) have "found = re_search []"
      by (simp add: re_compile_def)
    then show "found s" by (cases s) simp_all
  qed
  have "\<And>r. r \<in> set (rows data) \<Longrightarrow>
      name_query = [] \<or> (case name r of None \<Rightarrow> False | Some s \<Rightarrow> found s)"
    using assms(3) all by (force split: option.splits)
  then have "rows out = rows data"
    using r assms(1) by (auto simp: filter_id_conv)
  with out show ?thesis by blast
qed

text \<open>
  Claim C3. With unconstrained criteria (no region or the region \<^verbatim>\<open>All\<close>, a name query
  that is empty or trims to the empty text, the postal code \<^verbatim>\<open>All\<close>) the filter is to
  return the data unchanged, also when a pub has no name. The code tests the query
  before it trims it: for the query of one space the name filter runs with the empty
  pattern, and a pub without a name is dropped.
\<close>

theorem blank_query_drops_nameless:
  "strip '' '' = [] \<and>
   apply_filters eng (loaded [ox, nameless]) [] '' '' ''All'' = Inr (loaded [ox]) \<and>
   loaded [ox] \<noteq> loaded [ox, nameless]"
  by code_simp

subsection \<open>The name filter\<close>

lemma re_match_literal:
  "CHR ''.'' \<notin> set pat \<Longrightarrow> re_match pat s = prefix (map py_lower pat) (map py_lower s)"
  by (induction pat s rule: re_match.induct) (auto simp: re_char_def)

lemma re_search_literal:
  "CHR ''.'' \<notin> set pat \<Longrightarrow> re_search pat s = sublist (map py_lower pat) (map py_lower s)"
proof (induction s)
  case Nil
  then show ?case by (cases pat) simp_all
next
  case (Cons c cs)
  then show ?case
    using re_match_literal [of pat "c # cs"] by (simp add: sublist_Cons_right)
qed

lemma name_filter_literal:
  assumes "name_query \<noteq> []" and "\<not> list_ex re_meta (strip name_query)"
    and "CHR ''.'' \<notin> set (strip name_query)"
    and "authorities = [] \<or> ''All'' \<in> set authorities"
    and "name_dtype data = Object"
  shows "\<exists>out. apply_filters eng data authorities name_query ''All'' = Inr out \<and>
     rows out = filter (\<lambda>r. case name r of None \<Rightarrow> False
        | Some s \<Rightarrow> sublist (map py_lower (strip name_query)) (map py_lower s)) (rows data)"
proof -
  have "str_contains eng (name_dtype data) (strip name_query) (map name (rows data)) =
      Inr (map (\<lambda>x. case x of None \<Rightarrow> False
        | Some s \<Rightarrow> sublist (map py_lower (strip name_query)) (map py_lower s))
          (map name (rows data)))"
    using assms(2,3,5)
    by (auto simp: str_contains_def re_compile_def re_search_literal split: option.splits)
  with assms(1,4) show ?thesis
    by (auto simp: apply_filters_def Let_def rows_bool_index select_map comp_def)
qed

text \<open>
  Claim C4. For a name query whose trimmed value is not empty the filter is to keep
  exactly the pubs whose name contains the trimmed query as a substring, whatever the
  case of the letters, and to leave out the pubs without a name, raising nothing. The
  code hands the trimmed query to \<^verbatim>\<open>str.contains\<close> as a regular expression: the query
  of one dot keeps every pub that has a non-empty name, though none of the names has a
  dot in it. (The pub without a name is left out, as the claim says.)
\<close>

theorem dot_query_keeps_names_without_dot:
  "strip ''.'' = ''.'' \<and>
   apply_filters eng (loaded [red_lion, ox, nameless]) [] ''.'' ''All''
     = Inr (loaded [red_lion, ox]) \<and>
   \<not> sublist (map py_lower ''.'') (map py_lower ''Red Lion'') \<and>
   \<not> sublist (map py_lower ''.'') (map py_lower ''Ox'')"
  by code_simp

section \<open>The listing sorted by the length of the name\<close>

text \<open>
  Claim C6. When a pub of a non-empty frame has no name, the sorted listing fails: the
  exception of \<^verbatim>\<open>len\<close> (Python's TypeError, the specification's MissingAttribute
  condition) reaches the caller, nothing is shown, no length is made up for the pub and
  the frame is left as it was.
\<close>

theorem display_sorted_pubs_missing_name:
  assumes "rows data \<noteq> []" and "None \<in> set (map name (rows data))"
  shows "display_sorted_pubs srt data = (data, Inl TypeError)"
  using assms by (simp add: display_sorted_pubs_def apply_len_missing)

theorem display_sorted_pubs_missing_name_witness:
  "rows (loaded [ox, nameless]) \<noteq> [] \<and> None \<in> set (map name (rows (loaded [ox, nameless]))) \<and>
   display_sorted_pubs argsort_stable (loaded [ox, nameless])
     = (loaded [ox, nameless], Inl TypeError)"
proof -
  have a: "rows (loaded [ox, nameless]) \<noteq> []"
    by (simp add: loaded_def)
  have b: "None \<in> set (map name (rows (loaded [ox, nameless])))"
    by (simp add: loaded_def nameless_def example_pub_def)
  from display_sorted_pubs_missing_name [OF a b, of argsort_stable] a b
  show ?thesis by simp
qed

text \<open>
  Claim C1, as stated: the sorted listing leaves its input as it was passed in. It does
  not: the lengths of the names are stored in the frame it was given, as the new column
  \<^verbatim>\<open>name_length\<close>.
\<close>

theorem display_sorted_pubs_adds_column:
  "fst (display_sorted_pubs argsort_stable (loaded [red_lion, ox]))
     = \<lparr>rows = [red_lion, ox], name_dtype = Object, name_length = Some [8, 2]\<rparr> \<and>
   fst (display_sorted_pubs argsort_stable (loaded [red_lion, ox])) \<noteq> loaded [red_lion, ox]"
  by code_simp

text \<open>
  Claim C1, amended. The sorted listing never changes the rows of the frame it is given:
  the pubs, their nine loaded columns and their order stay as passed in. An empty frame
  and a frame with a missing name are left exactly as passed in. A non-empty frame whose
  names are all present gets the column \<^verbatim>\<open>name_length\<close> with the lengths of the names,
  and nothing else of it changes.
\<close>

theorem display_sorted_pubs_frame:
  "rows (fst (display_sorted_pubs srt data)) = rows data \<and>
   (rows data = [] \<or> None \<in> set (map name (rows data)) \<longrightarrow>
      fst (display_sorted_pubs srt data) = data) \<and>
   (rows data \<noteq> [] \<and> map name (rows data) = map Some ss \<longrightarrow>
      fst (display_sorted_pubs srt data) = data\<lparr>name_length := Some (map length ss)\<rparr>)"
proof (intro conjI impI)
  show "rows (fst (display_sorted_pubs srt data)) = rows data"
    by (simp add: display_sorted_pubs_def Let_def split: sum.splits)
next
  assume "rows data = [] \<or> None \<in> set (map name (rows data))"
  then show "fst (display_sorted_pubs srt data) = data"
    by (auto simp: display_sorted_pubs_def apply_len_missing)
next
  assume "rows data \<noteq> [] \<and> map name (rows data) = map Some ss"
  then show "fst (display_sorted_pubs srt data) = data\<lparr>name_length := Some (map length ss)\<rparr>"
    by (simp add: display_sorted_pubs_def apply_len_present Let_def)
qed

theorem display_sorted_pubs_frame_witness:
  "rows (loaded [red_lion, ox]) \<noteq> [] \<and>
   map name (rows (loaded [red_lion, ox])) = map Some [''Red Lion'', ''Ox''] \<and>
   fst (display_sorted_pubs argsort_stable (loaded [red_lion, ox]))
     = (loaded [red_lion, ox])\<lparr>name_length := Some [8, 2]\<rparr> \<and>
   rows (fst (display_sorted_pubs argsort_stable (loaded [red_lion, ox]))) = [red_lion, ox] \<and>
   None \<in> set (map name (rows (loaded [ox, nameless]))) \<and>
   fst (display_sorted_pubs argsort_stable (loaded [ox, nameless])) = loaded [ox, nameless]"
proof -
  have a: "rows (loaded [red_lion, ox]) \<noteq> [] \<and>
      map name (rows (loaded [red_lion, ox])) = map Some [''Red Lion'', ''Ox'']"
    by (simp add: loaded_def red_lion_def ox_def example_pub_def)
  have b: "None \<in> set (map name (rows (loaded [ox, nameless])))"
    by (simp add: loaded_def nameless_def example_pub_def)
  from display_sorted_pubs_frame [of argsort_stable "loaded [red_lion, ox]"
      "[''Red Lion'', ''Ox'']"]
    display_sorted_pubs_frame [of argsort_stable "loaded [ox, nameless]" "[]"] a b
  show ?thesis by (simp add: loaded_def)
qed

lemma display_sorted_pubs_table:
  assumes "snd (display_sorted_pubs srt data) = Inr (Dataframe tbl)"
  shows "\<exists>ss. map name (rows data) = map Some ss \<and>
     tbl = map (\<lambda>r. (name r, address r, postcode r, local_authority r))
             (take_rows (rows data) (srt True (map length ss)))"
proof -
  from assms have ne: "rows data \<noteq> []"
    by (auto simp: display_sorted_pubs_def split: if_splits)
  with assms obtain lens where lens: "apply_len (map name (rows data)) = Inr lens"
    by (auto simp: display_sorted_pubs_def split: sum.splits)
  from apply_len_Inr [OF lens] obtain ss where
    ss: "map name (rows data) = map Some ss" "lens = map length ss"
    by blast
  with assms ne lens show ?thesis
    by (auto simp: display_sorted_pubs_def Let_def)
qed

text \<open>
  Claim C2, as stated: the listing is a stable sort, pubs with names of the same length
  keep the order they have in the input. The code calls \<^verbatim>\<open>sort_values\<close> without
  \<^verbatim>\<open>kind\<close>, and the default algorithm (quicksort, vectorised in numpy) is not a stable
  one. For the four pubs Red Lion, Old Bell, Swan, Bull the keys are 8, 8, 4, 4, and
  it returns the positions 3, 2, 1, 0: the listing is Bull, Swan, Old Bell, Red Lion,
  with Bull before Swan and Old Bell before Red Lion, the opposite of their order in
  the input.
\<close>

theorem equal_lengths_may_swap:
  "argsort_ok argsort_ties_reversed \<and>
   map name [red_lion, old_bell, swan, bull]
     = [Some ''Red Lion'', Some ''Old Bell'', Some ''Swan'', Some ''Bull''] \<and>
   length ''Red Lion'' = length ''Old Bell'' \<and> length ''Swan'' = length ''Bull'' \<and>
   argsort_ties_reversed True [8, 8, 4, 4] = [3, 2, 1, 0] \<and>
   snd (display_sorted_pubs argsort_ties_reversed (loaded [red_lion, old_bell, swan, bull]))
     = Inr (Dataframe [(Some ''Bull'', Some ''1 High Street'', Some ''W1'', ''Soho''),
                       (Some ''Swan'', Some ''1 High Street'', Some ''N1'', ''Camden''),
                       (Some ''Old Bell'', Some ''1 High Street'', Some ''W1'', ''Soho''),
                       (Some ''Red Lion'', Some ''1 High Street'', Some ''N1'', ''Camden'')])"
proof -
  have "map name [red_lion, old_bell, swan, bull]
     = [Some ''Red Lion'', Some ''Old Bell'', Some ''Swan'', Some ''Bull''] \<and>
   length ''Red Lion'' = length ''Old Bell'' \<and> length ''Swan'' = length ''Bull'' \<and>
   argsort_ties_reversed True [8, 8, 4, 4] = [3, 2, 1, 0] \<and>
   snd (display_sorted_pubs argsort_ties_reversed (loaded [red_lion, old_bell, swan, bull]))
     = Inr (Dataframe [(Some ''Bull'', Some ''1 High Street'', Some ''W1'', ''Soho''),
                       (Some ''Swan'', Some ''1 High Street'', Some ''N1'', ''Camden''),
                       (Some ''Old Bell'', Some ''1 High Street'', Some ''W1'', ''Soho''),
                       (Some ''Red Lion'', Some ''1 High Street'', Some ''N1'', ''Camden'')])"
    by code_simp
  with argsort_ties_reversed_ok show ?thesis by simp
qed

text \<open>
  Claim C2, amended. The listing is an ascending sort on the length of the name: every
  name shown is present, the lengths never decrease down the table, and the table has
  exactly the pubs of the input (their four shown columns), each as often as the input.
  The order among pubs with names of the same length is the library's choice.
\<close>

theorem display_sorted_pubs_ascending:
  assumes "argsort_ok srt" and "snd (display_sorted_pubs srt data) = Inr (Dataframe tbl)"
  shows "\<exists>ss. map fst tbl = map Some ss \<and> sorted (map length ss) \<and>
     mset tbl = mset (map (\<lambda>r. (name r, address r, postcode r, local_authority r)) (rows data))"
proof -
  from display_sorted_pubs_table [OF assms(2)] obtain ns where
    ns: "map name (rows data) = map Some ns" and
    tbl: "tbl = map (\<lambda>r. (name r, address r, postcode r, local_authority r))
             (take_rows (rows data) (srt True (map length ns)))"
    by blast
  let ?idx = "srt True (map length ns)"
  from ns have len: "length (rows data) = length ns"
    by (metis length_map)
  have idx: "set ?idx = {0..<length ns}"
    using argsort_ok_set [OF assms(1), of True "map length ns"] by simp
  have "map fst tbl = map name (take_rows (rows data) ?idx)"
    by (simp add: tbl comp_def)
  also have "\<dots> = take_rows (map name (rows data)) ?idx"
    using idx len by (simp add: map_take_rows)
  also have "\<dots> = map Some (take_rows ns ?idx)"
    using idx by (simp add: ns take_rows_map_Some)
  finally have names: "map fst tbl = map Some (take_rows ns ?idx)" .
  have "map length (take_rows ns ?idx) = map ((!) (map length ns)) ?idx"
    using idx by (simp add: map_take_rows take_rows_def)
  moreover have "sorted (map ((!) (map length ns)) ?idx)"
    by (rule argsort_ok_ascending [OF assms(1)])
  ultimately have asc: "sorted (map length (take_rows ns ?idx))"
    by simp
  have "mset (take_rows (rows data) ?idx) = mset (rows data)"
    using assms(1) len by (simp add: mset_take_rows)
  then have "image_mset (\<lambda>r. (name r, address r, postcode r, local_authority r))
        (mset (take_rows (rows data) ?idx)) =
      image_mset (\<lambda>r. (name r, address r, postcode r, local_authority r)) (mset (rows data))"
    by simp
  then have "mset tbl =
      mset (map (\<lambda>r. (name r, address r, postcode r, local_authority r)) (rows data))"
    by (simp add: tbl)
  with names asc show ?thesis by blast
qed

theorem display_sorted_pubs_ascending_witness:
  "argsort_ok argsort_stable \<and>
   snd (display_sorted_pubs argsort_stable (loaded [red_lion, ox]))
     = Inr (Dataframe [(Some ''Ox'', Some ''1 High Street'', Some ''N1'', ''Camden''),
                       (Some ''Red Lion'', Some ''1 High Street'', Some ''N1'', ''Camden'')]) \<and>
   sorted (map length [''Ox'', ''Red Lion''])"
proof -
  have asc: "sorted (map length [''Ox'', ''Red Lion''])"
    by simp
  have run: "snd (display_sorted_pubs argsort_stable (loaded [red_lion, ox]))
     = Inr (Dataframe [(Some ''Ox'', Some ''1 High Street'', Some ''N1'', ''Camden''),
                       (Some ''Red Lion'', Some ''1 High Street'', Some ''N1'', ''Camden'')])"
    by code_simp
  from display_sorted_pubs_ascending [OF argsort_stable_ok run] argsort_stable_ok run asc
  show ?thesis by blast
qed

text \<open>
  With a library ordering that keeps equal keys in the order of the input, the listing is
  the stable sort of the rows on the length of the name.
\<close>

lemma display_sorted_pubs_stable_library:
  assumes "rows data \<noteq> []" and "map name (rows data) = map Some ss"
  shows "snd (display_sorted_pubs argsort_stable data) =
     Inr (Dataframe (map (\<lambda>r. (name r, address r, postcode r, local_authority r))
       (sort_key (\<lambda>r. case name r of None \<Rightarrow> 0 | Some s \<Rightarrow> length s) (rows data))))"
proof -
  have "map length ss = map (\<lambda>r. case name r of None \<Rightarrow> 0 | Some s \<Rightarrow> length s) (rows data)"
  proof -
    have "map (\<lambda>r. case name r of None \<Rightarrow> 0 | Some s \<Rightarrow> length s) (rows data)
        = map (\<lambda>x. case x of None \<Rightarrow> 0 | Some s \<Rightarrow> length s) (map name (rows data))"
      by (simp add: comp_def)
    also have "\<dots> = map length ss"
      by (simp add: assms(2) comp_def)
    finally show ?thesis by simp
  qed
  with assms show ?thesis
    by (simp add: display_sorted_pubs_def apply_len_present Let_def take_rows_argsort_stable)
qed

section \<open>The charts\<close>

lemma mset_value_counts:
  assumes "argsort_ok srt"
  shows "mset (value_counts srt col) = mset (map (\<lambda>k. (k, count_list col k)) (uniques col))"
  using assms by (simp add: value_counts_def Let_def mset_take_rows)

lemma sum_value_counts:
  assumes "argsort_ok srt"
  shows "sum_list (map snd (value_counts srt col)) = length col"
proof -
  have "sum_list (map snd (value_counts srt col)) =
      sum_mset (image_mset snd (mset (value_counts srt col)))"
    by (simp only: mset_map [symmetric] sum_mset_sum_list)
  also have "\<dots> = sum_mset (image_mset snd (mset (map (\<lambda>k. (k, count_list col k)) (uniques col))))"
    by (simp only: mset_value_counts [OF assms])
  also have "\<dots> = sum_list (map snd (map (\<lambda>k. (k, count_list col k)) (uniques col)))"
    by (simp only: mset_map [symmetric] sum_mset_sum_list)
  also have "\<dots> = sum_list (map (count_list col) (uniques col))"
    by (simp add: comp_def)
  also have "\<dots> = length col"
    by (rule sum_counts_uniques)
  finally show ?thesis .
qed

lemma keys_value_counts:
  assumes "argsort_ok srt"
  shows "mset (map fst (value_counts srt col)) = mset (uniques col)"
proof -
  have "mset (map fst (value_counts srt col)) = image_mset fst (mset (value_counts srt col))"
    by simp
  also have "\<dots> = image_mset fst (mset (map (\<lambda>k. (k, count_list col k)) (uniques col)))"
    by (simp only: mset_value_counts [OF assms])
  also have "\<dots> = mset (map fst (map (\<lambda>k. (k, count_list col k)) (uniques col)))"
    by (simp only: mset_map)
  also have "\<dots> = mset (uniques col)"
    by (simp add: comp_def)
  finally show ?thesis .
qed

lemma distinct_value_counts:
  assumes "argsort_ok srt"
  shows "distinct (map fst (value_counts srt col))"
  using mset_eq_imp_distinct_iff [OF keys_value_counts [OF assms, of col]]
  by (simp add: distinct_uniques)

lemma length_value_counts:
  assumes "argsort_ok srt"
  shows "length (value_counts srt col) = card (set col)"
proof -
  have "length (value_counts srt col) = size (mset (map fst (value_counts srt col)))"
    by simp
  also have "\<dots> = length (uniques col)"
    by (simp only: keys_value_counts [OF assms] size_mset)
  also have "\<dots> = card (set col)"
    using distinct_card [OF distinct_uniques, of col] by (simp add: set_uniques)
  finally show ?thesis .
qed

lemma value_counts_empty:
  assumes "argsort_ok srt"
  shows "value_counts srt [] = []"
  using length_value_counts [OF assms, of "[]"] by simp

lemma value_counts_descending:
  assumes "argsort_ok srt"
  shows "sorted (rev (map snd (value_counts srt col)))"
proof -
  let ?counted = "map (\<lambda>k. (k, count_list col k)) (uniques col)"
  let ?idx = "srt False (map snd ?counted)"
  have idx: "set ?idx \<subseteq> {0..<length ?counted}"
    using argsort_ok_set [OF assms, of False "map snd ?counted"] by simp
  have "map snd (value_counts srt col) = map ((!) (map snd ?counted)) ?idx"
    using idx by (simp add: value_counts_def Let_def map_take_rows) (simp add: take_rows_def)
  moreover have "sorted (map ((!) (map snd ?counted)) (rev ?idx))"
    by (rule argsort_ok_descending [OF assms])
  ultimately show ?thesis
    by (simp add: rev_map)
qed

lemma sorted_negated_counts:
  "sorted (rev (map snd s)) \<Longrightarrow> sorted (map (\<lambda>p. - int (snd p)) s)"
proof (induction s)
  case Nil
  then show ?case by simp
next
  case (Cons a s)
  from Cons.prems have tl: "sorted (rev (map snd s))" and hd: "\<forall>y\<in>set s. snd y \<le> snd a"
    by (auto simp: sorted_append)
  with Cons.IH show ?case by auto
qed

lemma length_take_rows_argsort:
  assumes "argsort_ok srt"
  shows "length (take_rows s (srt asc ks)) = length ks"
proof -
  have "length (take_rows s (srt asc ks)) = size (mset (srt asc ks))"
    by (simp add: take_rows_def)
  also have "\<dots> = length ks"
    by (simp only: argsort_ok_mset [OF assms] size_mset length_upt)
  finally show ?thesis .
qed

text \<open>When n is at least the number of entries, all of them are returned.\<close>

lemma mset_nlargest_all:
  assumes "argsort_ok srt" and "0 < n" and "length s \<le> n"
  shows "mset (nlargest srt n s) = mset s"
proof -
  have "length (take_rows s (srt False (map snd s))) \<le> n"
    using assms(3) by (simp add: length_take_rows_argsort [OF assms(1)])
  then have "nlargest srt n s = take_rows s (srt False (map snd s))"
    using assms(2,3) by (simp add: nlargest_def)
  then show ?thesis
    using assms(1) by (simp add: mset_take_rows)
qed

lemma nlargest_fewer:
  assumes "n < length s"
  shows "nlargest srt n s = take n (sort_key (\<lambda>p. - int (snd p)) s)"
  using assms by (simp add: nlargest_def)




text \<open>
  Claim C7. The counts of the chart by local authority add up to the number of pubs of
  the data, and no authority has two entries. Empty data give an empty result:
  \<^verbatim>\<open>value_counts\<close> of no rows is the empty list, and \<^verbatim>\<open>display_bar_chart\<close> draws no chart
  (it writes that there are no data), with no error and no row made up.
\<close>

theorem value_counts_totals:
  assumes "argsort_ok srt"
  shows "sum_list (map snd (value_counts srt (map local_authority (rows data)))) = length (rows data) \<and>
     distinct (map fst (value_counts srt (map local_authority (rows data)))) \<and>
     value_counts srt [] = [] \<and>
     display_bar_chart srt data =
       (if rows data = [] then Write ''No chart data available.''
        else Plotly_chart (value_counts srt (map local_authority (rows data))))"
  using assms
  by (simp add: sum_value_counts distinct_value_counts value_counts_empty display_bar_chart_def)

theorem value_counts_totals_witness:
  "argsort_ok argsort_stable \<and>
   value_counts argsort_stable (map local_authority (rows (loaded [red_lion, ox, the_crown])))
     = [(''Camden'', 2), (''Soho'', 1)] \<and>
   sum_list (map snd [(''Camden'', 2 :: nat), (''Soho'', 1)]) = length [red_lion, ox, the_crown] \<and>
   display_bar_chart argsort_stable (loaded []) = Write ''No chart data available.''"
proof -
  have run: "value_counts argsort_stable (map local_authority (rows (loaded [red_lion, ox, the_crown])))
     = [(''Camden'', 2), (''Soho'', 1)]"
    by code_simp
  from value_counts_totals [OF argsort_stable_ok, of "loaded [red_lion, ox, the_crown]"]
    value_counts_totals [OF argsort_stable_ok, of "loaded []"] argsort_stable_ok run
  show ?thesis by (simp add: loaded_def)
qed



subsection \<open>The ten largest and the order of the counts\<close>

text \<open>
  The counts come in non-increasing order (\<open>value_counts_descending\<close>). What the ten
  largest are, compared with that order, depends on the number of regions. With more
  than ten regions the selection is stable, and the ten largest are the first ten counts.
  With at most ten regions the counts are sorted once more by the default algorithm: the
  counts shown are the same, in the same non-increasing order of the count, but which of
  two regions with the same count comes first is the library's choice a second time.
\<close>

lemma nlargest_prefix_of_sorted:
  assumes "sorted (rev (map snd s))" and "n < length s"
  shows "nlargest srt n s = take n s"
  using assms
  by (simp add: nlargest_fewer sort_key_id_if_sorted sorted_negated_counts)

lemma top_cities_many_regions:
  assumes "argsort_ok srt" and "10 < card (local_authority ` set (rows data))"
  shows "display_top_cities srt data =
     Plotly_chart (take 10 (value_counts srt (map local_authority (rows data))))"
proof -
  let ?vc = "value_counts srt (map local_authority (rows data))"
  have "length ?vc = card (local_authority ` set (rows data))"
    using length_value_counts [OF assms(1), of "map local_authority (rows data)"] by simp
  with assms(2) have "10 < length ?vc" by simp
  with value_counts_descending [OF assms(1)] have "nlargest srt 10 ?vc = take 10 ?vc"
    by (rule nlargest_prefix_of_sorted)
  moreover from assms(2) have "rows data \<noteq> []"
    by auto
  ultimately show ?thesis
    by (simp add: display_top_cities_def)
qed

lemma sorted_rev_unique:
  fixes xs ys :: "nat list"
  assumes "mset xs = mset ys" and "sorted (rev xs)" and "sorted (rev ys)"
  shows "xs = ys"
proof -
  from assms(1) have "mset (rev xs) = mset (rev ys)" by simp
  with assms(2,3) have "rev xs = rev ys"
    by (metis properties_for_sort)
  then show ?thesis by simp
qed

lemma nlargest_counts_few_regions:
  assumes "argsort_ok srt" and "0 < n" and "length s \<le> n" and "sorted (rev (map snd s))"
  shows "map snd (nlargest srt n s) = map snd s" and "mset (nlargest srt n s) = mset s"
proof -
  show all: "mset (nlargest srt n s) = mset s"
    by (rule mset_nlargest_all [OF assms(1-3)])
  let ?idx = "srt False (map snd s)"
  have top: "nlargest srt n s = take_rows s ?idx"
    using assms(2,3) by (simp add: nlargest_def length_take_rows_argsort [OF assms(1)])
  have idx: "set ?idx \<subseteq> {0..<length s}"
    using argsort_ok_set [OF assms(1), of False "map snd s"] by simp
  have "map snd (take_rows s ?idx) = map ((!) (map snd s)) ?idx"
    using idx by (simp add: map_take_rows) (simp add: take_rows_def)
  moreover have "sorted (map ((!) (map snd s)) (rev ?idx))"
    by (rule argsort_ok_descending [OF assms(1)])
  ultimately have desc: "sorted (rev (map snd (nlargest srt n s)))"
    by (simp add: top rev_map)
  from all have "mset (map snd (nlargest srt n s)) = mset (map snd s)"
    by (metis mset_map)
  then show "map snd (nlargest srt n s) = map snd s"
    using desc assms(4) by (rule sorted_rev_unique)
qed


section \<open>Saved pubs\<close>

lemma saved_list_page:
  "saved_list (saved_pubs_page st c b) =
     (if b \<and> c \<noteq> Some ''None'' then saved_list st @ [c] else saved_list st)"
  by (cases "saved_pubs st") (simp_all add: saved_pubs_page_def saved_list_def Let_def)

lemma saved_list_foldl:
  "Some ''None'' \<notin> set cs \<Longrightarrow>
     saved_list (foldl (\<lambda>s c. saved_pubs_page s c True) st cs) = saved_list st @ cs"
  by (induction cs arbitrary: st) (auto simp add: saved_list_page)

text \<open>
  Claim C9. Saving is a no-op when the chosen name is the sentinel \<^verbatim>\<open>'None'\<close> (an empty
  list stays empty); any other name is appended at the end of the saved list, with no
  check for duplicates or for the name's presence in the data; so saving k names other
  than the sentinel, starting from a fresh session, leaves exactly these k names, in the
  order of the calls.
\<close>

theorem save_appends_unless_sentinel:
  "saved_list (saved_pubs_page st (Some ''None'') True) = saved_list st \<and>
   (c \<noteq> Some ''None'' \<longrightarrow> saved_list (saved_pubs_page st c True) = saved_list st @ [c]) \<and>
   (Some ''None'' \<notin> set cs \<longrightarrow>
      saved_list (foldl (\<lambda>s c. saved_pubs_page s c True) \<lparr>saved_pubs = None\<rparr> cs) = cs \<and>
      length (saved_list (foldl (\<lambda>s c. saved_pubs_page s c True) \<lparr>saved_pubs = None\<rparr> cs))
        = length cs)"
proof -
  have fresh: "saved_list \<lparr>saved_pubs = None\<rparr> = []"
    by (simp add: saved_list_def)
  show ?thesis
    by (simp add: saved_list_page saved_list_foldl fresh)
qed

theorem save_appends_unless_sentinel_witness:
  "saved_list (saved_pubs_page \<lparr>saved_pubs = None\<rparr> (Some ''None'') True) = [] \<and>
   saved_list (saved_pubs_page \<lparr>saved_pubs = Some [Some ''Ox'']\<rparr> (Some ''Ox'') True)
     = [Some ''Ox'', Some ''Ox''] \<and>
   saved_list (foldl (\<lambda>s c. saved_pubs_page s c True) \<lparr>saved_pubs = None\<rparr>
     [Some ''Ox'', Some ''Red Lion'', Some ''Ox'']) = [Some ''Ox'', Some ''Red Lion'', Some ''Ox'']"
  using save_appends_unless_sentinel [of "\<lparr>saved_pubs = None\<rparr>" "Some ''Ox''" "[]"]
    save_appends_unless_sentinel [of "\<lparr>saved_pubs = Some [Some ''Ox'']\<rparr>" "Some ''Ox''"
      "[Some ''Ox'', Some ''Red Lion'', Some ''Ox'']"]
  by (simp add: saved_list_def)

end
